theory Spec2Isabelle
  imports Main "HOL-Library.Sublist" "HOL-Library.AList"
begin


section \<open>Pagination component (Components/Pagination)\<close>

text \<open>
  The component renders a list of \<open>li\<close> items: an optional Previous button, the numbered
  buttons and an optional Next button.  An item is modelled by what it shows and what its
  click handler passes to \<open>onPageChange\<close>; a numbered button also carries whether it has
  the \<open>active\<close> class.  The props \<open>page\<close>, \<open>totalPages\<close> and \<open>visiblePages\<close> are
  integer-valued JavaScript numbers, modelled as mathematical integers (exact for every
  safe integer); \<open>Math.floor (visiblePages / 2)\<close> is \<open>visiblePages div 2\<close>, which rounds
  towards minus infinity as \<open>Math.floor\<close> does.
\<close>

datatype page_item =
    Previous int
  | PageButton int bool
  | Next int

definition startPage0 :: "int \<Rightarrow> int \<Rightarrow> int" where
  "startPage0 page visiblePages = max 1 (page - visiblePages div 2)"

definition endPage0 :: "int \<Rightarrow> int \<Rightarrow> int" where
  "endPage0 page visiblePages = startPage0 page visiblePages + visiblePages - 1"

text \<open>The values of \<open>startPage\<close> and \<open>endPage\<close> after the clamping \<open>if\<close>.\<close>

definition startPage :: "int \<Rightarrow> int \<Rightarrow> int \<Rightarrow> int" where
  "startPage page totalPages visiblePages =
     (if endPage0 page visiblePages > totalPages
      then max 1 (totalPages - visiblePages + 1)
      else startPage0 page visiblePages)"

definition endPage :: "int \<Rightarrow> int \<Rightarrow> int \<Rightarrow> int" where
  "endPage page totalPages visiblePages =
     (if endPage0 page visiblePages > totalPages
      then totalPages
      else endPage0 page visiblePages)"

text \<open>The loop \<open>for (let i = startPage; i <= endPage; i++) items.push (...)\<close>.\<close>

function numbered :: "int \<Rightarrow> int \<Rightarrow> int \<Rightarrow> page_item list" where
  "numbered page i endP =
     (if i \<le> endP then PageButton i (page = i) # numbered page (i + 1) endP else [])"
  by pat_completeness auto
termination
  by (relation "measure (\<lambda>(page, i, endP). nat (endP + 1 - i))") auto

declare numbered.simps [simp del]

definition Pagination :: "int \<Rightarrow> int \<Rightarrow> int \<Rightarrow> page_item list" where
  "Pagination page totalPages visiblePages =
     (if page > 1 then [Previous (page - 1)] else []) @
     numbered page (startPage page totalPages visiblePages)
                   (endPage page totalPages visiblePages) @
     (if page < totalPages then [Next (page + 1)] else [])"

text \<open>Projections of the rendered list used to state the properties.\<close>

fun labels :: "page_item list \<Rightarrow> int list" where
  "labels [] = []"
| "labels (PageButton i a # xs) = i # labels xs"
| "labels (x # xs) = labels xs"

fun current_labels :: "page_item list \<Rightarrow> int list" where
  "current_labels [] = []"
| "current_labels (PageButton i a # xs) = (if a then i # current_labels xs else current_labels xs)"
| "current_labels (x # xs) = current_labels xs"

fun is_previous :: "page_item \<Rightarrow> bool" where
  "is_previous (Previous t) = True"
| "is_previous x = False"

fun is_next :: "page_item \<Rightarrow> bool" where
  "is_next (Next t) = True"
| "is_next x = False"

definition window :: "int \<Rightarrow> int \<Rightarrow> int \<Rightarrow> int list" where
  "window page totalPages visiblePages = labels (Pagination page totalPages visiblePages)"

section \<open>JavaScript strings\<close>

text \<open>
  A string is the list of the bytes of its UTF-8 encoding (a well-formed string: one
  without unpaired surrogates).  The white space that
  \<open>String.prototype.trim\<close>, \<open>parseInt\<close> and the regular expression class \<open>\s\<close>
  recognise (the \<open>WhiteSpace\<close> and \<open>LineTerminator\<close> code points of ECMAScript) is
  listed by its encodings: U+0009 to U+000D, U+0020, U+00A0, U+1680, U+2000 to U+200A,
  U+2028, U+2029, U+202F, U+205F, U+3000 and U+FEFF.
\<close>

definition white_space :: "string list" where
  "white_space =
     [[CHR 0x09], [CHR 0x0A], [CHR 0x0B], [CHR 0x0C], [CHR 0x0D], [CHR 0x20],
      [CHR 0xC2, CHR 0xA0],
      [CHR 0xE1, CHR 0x9A, CHR 0x80],
      [CHR 0xE2, CHR 0x80, CHR 0x80], [CHR 0xE2, CHR 0x80, CHR 0x81],
      [CHR 0xE2, CHR 0x80, CHR 0x82], [CHR 0xE2, CHR 0x80, CHR 0x83],
      [CHR 0xE2, CHR 0x80, CHR 0x84], [CHR 0xE2, CHR 0x80, CHR 0x85],
      [CHR 0xE2, CHR 0x80, CHR 0x86], [CHR 0xE2, CHR 0x80, CHR 0x87],
      [CHR 0xE2, CHR 0x80, CHR 0x88], [CHR 0xE2, CHR 0x80, CHR 0x89],
      [CHR 0xE2, CHR 0x80, CHR 0x8A],
      [CHR 0xE2, CHR 0x80, CHR 0xA8], [CHR 0xE2, CHR 0x80, CHR 0xA9],
      [CHR 0xE2, CHR 0x80, CHR 0xAF],
      [CHR 0xE2, CHR 0x81, CHR 0x9F],
      [CHR 0xE3, CHR 0x80, CHR 0x80],
      [CHR 0xEF, CHR 0xBB, CHR 0xBF]]"

text \<open>The white space character a string starts with, or ends with.\<close>

definition ws_prefix :: "string \<Rightarrow> string option" where
  "ws_prefix s = find (\<lambda>w. prefix w s) white_space"

definition ws_suffix :: "string \<Rightarrow> string option" where
  "ws_suffix s = find (\<lambda>w. suffix w s) white_space"

function trimStart :: "string \<Rightarrow> string" where
  "trimStart s = (case ws_prefix s of None \<Rightarrow> s | Some w \<Rightarrow> trimStart (drop (length w) s))"
  by pat_completeness auto
termination
proof (relation "measure length")
  show "wf (measure length)" by simp
next
  fix s w :: string
  assume "ws_prefix s = Some w"
  then have "w \<in> set white_space" and "prefix w s"
    by (auto simp: ws_prefix_def find_Some_iff)
  then have "w \<noteq> []" and "s \<noteq> []"
    by (auto simp: white_space_def)
  then show "(drop (length w) s, s) \<in> measure length"
    by simp
qed

function trimEnd :: "string \<Rightarrow> string" where
  "trimEnd s = (case ws_suffix s of None \<Rightarrow> s | Some w \<Rightarrow> trimEnd (take (length s - length w) s))"
  by pat_completeness auto
termination
proof (relation "measure length")
  show "wf (measure length)" by simp
next
  fix s w :: string
  assume "ws_suffix s = Some w"
  then have "w \<in> set white_space" and "suffix w s"
    by (auto simp: ws_suffix_def find_Some_iff)
  then have "w \<noteq> []" and "s \<noteq> []"
    by (auto simp: white_space_def)
  then show "(take (length s - length w) s, s) \<in> measure length"
    by simp
qed

declare trimStart.simps [simp del] trimEnd.simps [simp del]

definition trim :: "string \<Rightarrow> string" where
  "trim s = trimEnd (trimStart s)"

text \<open>Character classes by byte value.\<close>

definition is_digit :: "char \<Rightarrow> bool" where
  "is_digit c = (48 \<le> (of_char c :: nat) \<and> (of_char c :: nat) \<le> 57)"

definition is_upper :: "char \<Rightarrow> bool" where
  "is_upper c = (65 \<le> (of_char c :: nat) \<and> (of_char c :: nat) \<le> 90)"

definition is_lower :: "char \<Rightarrow> bool" where
  "is_lower c = (97 \<le> (of_char c :: nat) \<and> (of_char c :: nat) \<le> 122)"

text \<open>The value of a digit in a radix up to 16, if it is one.\<close>

definition digit_value :: "nat \<Rightarrow> char \<Rightarrow> nat option" where
  "digit_value radix c =
     (let n = of_char c :: nat;
          v = (if 48 \<le> n \<and> n \<le> 57 then Some (n - 48)
               else if 97 \<le> n \<and> n \<le> 102 then Some (n - 87)
               else if 65 \<le> n \<and> n \<le> 70 then Some (n - 55)
               else None)
      in case v of None \<Rightarrow> None | Some d \<Rightarrow> if d < radix then Some d else None)"

definition digits_value :: "nat \<Rightarrow> string \<Rightarrow> nat" where
  "digits_value radix z = foldl (\<lambda>a c. a * radix + the (digit_value radix c)) 0 z"

section \<open>JavaScript numbers and their strings\<close>

text \<open>
  A number that holds an integer is modelled by that integer.
\<close>

definition digit_char :: "nat \<Rightarrow> char" where
  "digit_char d = char_of (48 + d)"

function string_of_nat :: "nat \<Rightarrow> string" where
  "string_of_nat n =
     (if n < 10 then [digit_char n] else string_of_nat (n div 10) @ [digit_char (n mod 10)])"
  by pat_completeness auto
termination
  by (relation "measure id") auto

declare string_of_nat.simps [simp del]

text \<open>A decimal numeral: a string of digits that is not empty.\<close>

definition decimal :: "string \<Rightarrow> bool" where
  "decimal s = (s \<noteq> [] \<and> (\<forall>c \<in> set s. \<exists>d < 10. c = digit_char d))"

text \<open>
  \<open>Number.prototype.toString\<close> on an integer: decimal digits, with a minus sign.
  (JavaScript prints an integer so up to \<open>10^21\<close>; the model prints every integer so.)
\<close>

definition number_toString :: "int \<Rightarrow> string" where
  "number_toString n = (if n < 0 then CHR ''-'' # string_of_nat (nat (- n)) else string_of_nat (nat n))"

fun intercalate :: "'a list \<Rightarrow> 'a list list \<Rightarrow> 'a list" where
  "intercalate sep [] = []"
| "intercalate sep [x] = x"
| "intercalate sep (x # y # ys) = x @ sep @ intercalate sep (y # ys)"

text \<open>
  \<open>parseInt\<close>: leading white space is skipped, then an optional sign, then (when no
  radix is given) an optional \<open>0x\<close> or \<open>0X\<close> that selects radix 16, then the longest
  run of digits.  \<open>NaN\<close> is \<open>None\<close>; minus zero is zero.  The argument
  \<open>stripPrefix\<close> is true for a call without radix and false for a call with radix 10.
\<close>

definition parseInt_with :: "bool \<Rightarrow> string \<Rightarrow> int option" where
  "parseInt_with stripPrefix input =
     (let S = trimStart input;
          neg = (S \<noteq> [] \<and> hd S = CHR ''-'');
          S1 = (if S \<noteq> [] \<and> (hd S = CHR ''+'' \<or> hd S = CHR ''-'') then tl S else S);
          hex = (stripPrefix \<and> (prefix ''0x'' S1 \<or> prefix ''0X'' S1));
          S2 = (if hex then drop 2 S1 else S1);
          R = (if hex then 16 else 10);
          Z = takeWhile (\<lambda>c. digit_value R c \<noteq> None) S2
      in if Z = [] then None
         else Some ((if neg then - 1 else 1) * int (digits_value R Z)))"

definition parseInt :: "string \<Rightarrow> int option" where
  "parseInt input = parseInt_with True input"


text \<open>\<open>x || d\<close> for a number \<open>x\<close>: \<open>NaN\<close> and zero are falsy.\<close>

definition or_default :: "int option \<Rightarrow> int \<Rightarrow> int" where
  "or_default x d = (case x of None \<Rightarrow> d | Some n \<Rightarrow> if n \<noteq> 0 then n else d)"

section \<open>JavaScript values\<close>

text \<open>
  A value that comes out of \<open>JSON.parse\<close> is a \<open>json\<close>; \<open>undefined\<close> is
  \<open>None\<close> of \<open>json option\<close>.  Its numbers are integers and its strings byte strings, as
  everywhere in this development.
\<close>

datatype json =
    JNull
  | JBool bool
  | JNum int
  | JStr string
  | JArr "json list"
  | JObj "(string \<times> json) list"

text \<open>
  Property access \<open>v?.k\<close> for the keys the code reads (\<open>message\<close>, \<open>code\<close>, \<open>id\<close>, and
  the identifier fields of a record): only an object has them, and in an object parsed from
  JSON text a later duplicate key wins.
\<close>

fun get_prop :: "json option \<Rightarrow> string \<Rightarrow> json option" where
  "get_prop (Some (JObj fs)) k = map_of (rev fs) k"
| "get_prop v k = None"

text \<open>Truthiness, as tested by \<open>||\<close>, \<open>? :\<close> and \<open>if\<close>.\<close>

fun truthy :: "json option \<Rightarrow> bool" where
  "truthy None = False"
| "truthy (Some JNull) = False"
| "truthy (Some (JBool b)) = b"
| "truthy (Some (JNum n)) = (n \<noteq> 0)"
| "truthy (Some (JStr s)) = (s \<noteq> [])"
| "truthy (Some (JArr xs)) = True"
| "truthy (Some (JObj fs)) = True"

text \<open>
  \<open>ToString\<close>, as applied by a template literal and by the \<open>Error\<close> constructor.  An
  array is its elements joined by commas, with \<open>null\<close> elements empty.
\<close>

fun js_to_string :: "json \<Rightarrow> string" where
  "js_to_string JNull = ''null''"
| "js_to_string (JBool b) = (if b then ''true'' else ''false'')"
| "js_to_string (JNum n) = number_toString n"
| "js_to_string (JStr s) = s"
| "js_to_string (JArr xs) =
     intercalate '','' (map (\<lambda>x. if x = JNull then [] else js_to_string x) xs)"
| "js_to_string (JObj fs) = ''[object Object]''"

definition template_string :: "json option \<Rightarrow> string" where
  "template_string v = (case v of None \<Rightarrow> ''undefined'' | Some x \<Rightarrow> js_to_string x)"

section \<open>FetchWrapper (utils/fetchWrapper)\<close>

text \<open>
  \<open>CustomError\<close> is a record of the three constructor arguments.  What a \<open>catch\<close> can
  receive is either a \<open>CustomError\<close> or an error of the platform (the \<open>TypeError\<close> of a
  rejected \<open>fetch\<close>, the \<open>SyntaxError\<close> of \<open>response.json ()\<close>), of which only the
  message is read.
\<close>

record custom_error =
  message :: string
  statusCode :: int
  details :: json

datatype exn =
    CustomError custom_error
  | NativeError string

text \<open>
  A \<open>Response\<close>: its status line, its \<open>Content-Type\<close> header (\<open>None\<close> when the header
  is absent), and what \<open>response.json ()\<close> and \<open>response.text ()\<close> settle to: \<open>Inl m\<close>
  is a rejection with a platform error of message \<open>m\<close>.  \<open>response.ok\<close> is defined by the
  Fetch standard as a status from 200 to 299.
\<close>

record response =
  status :: int
  statusText :: string
  contentType :: "string option"
  json_result :: "string + json"
  text_result :: "string + string"

definition ok :: "response \<Rightarrow> bool" where
  "ok r = (200 \<le> status r \<and> status r \<le> 299)"

datatype fetch_outcome =
    Rejected string
  | Resolved response

record options =
  opt_method :: "string option"
  opt_headers :: "(string \<times> string) list"
  opt_body :: "json option"

text \<open>
  The arguments of one \<open>fetch\<close> call.  The body is the value whose JSON text
  \<open>JSON.stringify\<close> produces (\<open>None\<close> for \<open>null\<close>).
\<close>

record request =
  req_url :: string
  req_method :: string
  req_headers :: "(string \<times> string) list"
  req_body :: "json option"

type_synonym network = "request \<Rightarrow> fetch_outcome"

text \<open>The object spread \<open>{ ...defaults, ...options.headers }\<close>: later keys override.\<close>

definition spread_headers :: "(string \<times> string) list \<Rightarrow> (string \<times> string) list \<Rightarrow> (string \<times> string) list" where
  "spread_headers defaults extra = fold (\<lambda>(k, v). AList.update k v) extra defaults"

definition fetchOptions :: "string \<Rightarrow> string \<Rightarrow> options \<Rightarrow> request" where
  "fetchOptions baseURL uri opts =
     \<lparr> req_url = baseURL @ uri,
       req_method = (case opt_method opts of
                       None \<Rightarrow> ''GET''
                     | Some m \<Rightarrow> if m \<noteq> [] then m else ''GET''),
       req_headers = spread_headers
          [(''Content-Type'', ''application/json''), (''Accept'', ''application/json'')]
          (opt_headers opts),
       req_body = (if truthy (opt_body opts) then opt_body opts else None) \<rparr>"

text \<open>
  \<open>response.headers.get ('Content-Type')?.includes ('application/json')\<close>, and the
  body read that follows it.
\<close>

definition isJSON :: "response \<Rightarrow> bool" where
  "isJSON r = (case contentType r of None \<Rightarrow> False | Some ct \<Rightarrow> sublist ''application/json'' ct)"

definition responseData :: "response \<Rightarrow> string + json" where
  "responseData r =
     (if isJSON r then json_result r
      else (case text_result r of Inl m \<Rightarrow> Inl m | Inr t \<Rightarrow> Inr (JStr t)))"

text \<open>\<open>responseData?.message || response.statusText || 'Unknown error'\<close>, as a string.\<close>

definition error_message :: "json \<Rightarrow> response \<Rightarrow> string" where
  "error_message d r =
     (if truthy (get_prop (Some d) ''message'') then template_string (get_prop (Some d) ''message'')
      else if statusText r \<noteq> [] then statusText r
      else ''Unknown error'')"

text \<open>The body of the \<open>try\<close> block, after the \<open>fetch\<close> has settled.\<close>

definition sendRequest_try :: "fetch_outcome \<Rightarrow> exn + json" where
  "sendRequest_try outcome =
     (case outcome of
        Rejected m \<Rightarrow> Inl (NativeError m)
      | Resolved r \<Rightarrow>
          (case responseData r of
             Inl m \<Rightarrow> Inl (NativeError m)
           | Inr d \<Rightarrow>
               if \<not> ok r
               then Inl (CustomError \<lparr> message = error_message d r, statusCode = status r, details = d \<rparr>)
               else Inr d))"

text \<open>The \<open>catch\<close> block: what it throws for the error it caught.\<close>

fun sendRequest_catch :: "exn \<Rightarrow> exn" where
  "sendRequest_catch (CustomError e) = CustomError e"
| "sendRequest_catch (NativeError m) =
     CustomError \<lparr> message = (if m \<noteq> [] then m else ''Network Error''), statusCode = 0, details = JObj [] \<rparr>"

text \<open>
  \<open>sendRequest\<close> returns the settled promise (\<open>Inl\<close> a rejection, \<open>Inr\<close> the value) and
  the list of \<open>fetch\<close> calls it made, in order.
\<close>

definition sendRequest :: "network \<Rightarrow> string \<Rightarrow> string \<Rightarrow> options \<Rightarrow> (exn + json) \<times> request list" where
  "sendRequest net baseURL uri opts =
     (let req = fetchOptions baseURL uri opts in
      (case sendRequest_try (net req) of
         Inl e \<Rightarrow> Inl (sendRequest_catch e)
       | Inr d \<Rightarrow> Inr d,
       [req]))"

definition get :: "network \<Rightarrow> string \<Rightarrow> string \<Rightarrow> (string \<times> string) list \<Rightarrow> (exn + json) \<times> request list" where
  "get net baseURL uri hdrs =
     sendRequest net baseURL uri \<lparr> opt_method = Some ''GET'', opt_headers = hdrs, opt_body = None \<rparr>"


section \<open>CreateResource: submission and its error mapping\<close>

text \<open>A SweetAlert dialog: title, text and icon.\<close>

datatype notice = Swal string string string









section \<open>Exhaustive paged fetch (CreateResource.fetchAllIds, DeleteResource.fetchIds)\<close>

text \<open>
  A page of a collection as the API returns it: \<open>res.data\<close> and
  \<open>res.metadata?.total_pages\<close> (\<open>None\<close> when the metadata or the field is missing).
  The server, seen through \<open>api.get\<close>, maps the endpoint requested to the page it
  returns or to the error thrown.
\<close>

record result_page =
  data :: "json list"
  total_pages :: "int option"

type_synonym server = "string \<Rightarrow> exn + result_page"

definition page_url :: "string \<Rightarrow> int \<Rightarrow> string" where
  "page_url endpoint page = endpoint @ ''?page='' @ number_toString page @ ''&pageSize=20''"

text \<open>\<open>xs.map (f)\<close> where \<open>f\<close> may throw: the first error ends the map.\<close>

fun map_throwing :: "('a \<Rightarrow> exn + 'b) \<Rightarrow> 'a list \<Rightarrow> exn + 'b list" where
  "map_throwing f [] = Inr []"
| "map_throwing f (x # xs) =
     (case f x of
        Inl e \<Rightarrow> Inl e
      | Inr y \<Rightarrow> (case map_throwing f xs of Inl e \<Rightarrow> Inl e | Inr ys \<Rightarrow> Inr (y # ys)))"

text \<open>
  The loop \<open>do { ... } while (page <= totalPages)\<close> of both components, entered with the
  current values of \<open>all\<close> and \<open>page\<close>; \<open>f\<close> is what is applied to each item of a page
  before it is appended.  The result is the final \<open>all\<close>, or the error that left the
  loop, together with the endpoints requested so far, in order.  A server that keeps
  announcing more pages keeps the loop running: then there is no result.
\<close>

partial_function (option) fetch_loop ::
  "(json \<Rightarrow> exn + 'a) \<Rightarrow> server \<Rightarrow> string \<Rightarrow> 'a list \<Rightarrow> int \<Rightarrow> string list
     \<Rightarrow> ((exn + 'a list) \<times> string list) option" where
  "fetch_loop f api endpoint all page requested =
     (case api (page_url endpoint page) of
        Inl e \<Rightarrow> Some (Inl e, requested @ [page_url endpoint page])
      | Inr res \<Rightarrow>
          (case map_throwing f (data res) of
             Inl e \<Rightarrow> Some (Inl e, requested @ [page_url endpoint page])
           | Inr ids \<Rightarrow>
               if page + 1 \<le> or_default (total_pages res) 1
               then fetch_loop f api endpoint (all @ ids) (page + 1)
                      (requested @ [page_url endpoint page])
               else Some (Inr (all @ ids), requested @ [page_url endpoint page])))"

text \<open>\<open>fetchAllIds\<close> of CreateResource appends the items as they are.\<close>

definition fetchAllIds :: "server \<Rightarrow> string \<Rightarrow> ((exn + json list) \<times> string list) option" where
  "fetchAllIds api endpoint = fetch_loop Inr api endpoint [] 1 []"

text \<open>
  \<open>fetchIds\<close> of DeleteResource appends the identifier of each item; reading a field of
  a \<open>null\<close> item throws.  It stores the list and clears the selection, or shows a dialog.
\<close>

definition item_id :: "string \<Rightarrow> json \<Rightarrow> exn + json option" where
  "item_id resourceType item =
     (if item = JNull then Inl (NativeError ''Cannot read properties of null'')
      else Inr (get_prop (Some item)
                  (if resourceType = ''habitats'' then ''habitat_id'' else ''species_id'')))"

record delete_state =
  del_resourceType :: string
  del_resourceId :: "json option list"
  del_selectedId :: string

definition fetchIds :: "server \<Rightarrow> delete_state \<Rightarrow> (delete_state \<times> notice option \<times> string list) option" where
  "fetchIds api st =
     (case fetch_loop (item_id (del_resourceType st)) api (''/'' @ del_resourceType st) [] 1 [] of
        None \<Rightarrow> None
      | Some (Inr allIds, requested) \<Rightarrow>
          Some (st \<lparr> del_resourceId := allIds, del_selectedId := [] \<rparr>, None, requested)
      | Some (Inl e, requested) \<Rightarrow>
          Some (st, Some (Swal ''Error'' (''Could not load '' @ del_resourceType st @ '' IDs'') ''error''),
                requested))"

section \<open>URLSearchParams\<close>

text \<open>
  A \<open>URLSearchParams\<close> object is its list of name-value pairs.  \<open>set\<close> overwrites the
  first pair of the name and removes the others, or appends; \<open>get\<close> returns the value of
  the first pair of the name, or \<open>null\<close>.
\<close>

type_synonym search_params = "(string \<times> string) list"

fun params_set :: "search_params \<Rightarrow> string \<Rightarrow> string \<Rightarrow> search_params" where
  "params_set [] k v = [(k, v)]"
| "params_set ((k', v') # ps) k v =
     (if k' = k then (k, v) # filter (\<lambda>(n, _). n \<noteq> k) ps else (k', v') # params_set ps k v)"

definition params_get :: "search_params \<Rightarrow> string \<Rightarrow> string option" where
  "params_get ps k = map_of ps k"

text \<open>
  \<open>toString\<close> is the \<open>application/x-www-form-urlencoded\<close> serializer of the URL
  standard: of the bytes of a name or value, the ASCII letters and digits and \<open>* - . _\<close>
  stay, a space becomes \<open>+\<close>, every other byte becomes \<open>%\<close> and two upper-case
  hexadecimal digits; pairs are written \<open>name=value\<close> and joined by \<open>&\<close>.
\<close>

definition unreserved :: "char \<Rightarrow> bool" where
  "unreserved c = (is_digit c \<or> is_upper c \<or> is_lower c
                   \<or> c = CHR ''*'' \<or> c = CHR ''-'' \<or> c = CHR ''.'' \<or> c = CHR ''_'')"

definition hex_digit :: "nat \<Rightarrow> char" where
  "hex_digit d = (if d < 10 then char_of (48 + d) else char_of (55 + d))"

definition encode_byte :: "char \<Rightarrow> string" where
  "encode_byte c =
     (if unreserved c then [c]
      else if c = CHR '' '' then ''+''
      else [CHR ''%'', hex_digit ((of_char c :: nat) div 16), hex_digit ((of_char c :: nat) mod 16)])"

definition form_encode :: "string \<Rightarrow> string" where
  "form_encode s = concat (map encode_byte s)"

definition params_toString :: "search_params \<Rightarrow> string" where
  "params_toString ps = intercalate ''&'' (map (\<lambda>(k, v). form_encode k @ ''='' @ form_encode v) ps)"

text \<open>
  The constructor applied to a string drops one leading \<open>?\<close> and runs the parser of the
  URL standard: the string is split at every \<open>&\<close>; empty pieces are skipped; a piece
  is split at its first \<open>=\<close> (the value is empty when there is none); in both halves
  every \<open>+\<close> becomes a space and then the percent escapes are decoded.  A \<open>%\<close> that is
  not followed by two hexadecimal digits stays.  The decoded bytes are the name and the
  value (the parser decodes them as UTF-8, which keeps well-formed bytes as they are).
\<close>

fun split_on :: "char \<Rightarrow> string \<Rightarrow> string list" where
  "split_on sep [] = [[]]"
| "split_on sep (c # cs) =
     (if c = sep then [] # split_on sep cs
      else (case split_on sep cs of [] \<Rightarrow> [[c]] | piece # pieces \<Rightarrow> (c # piece) # pieces))"

definition plus_to_space :: "string \<Rightarrow> string" where
  "plus_to_space s = map (\<lambda>c. if c = CHR ''+'' then CHR '' '' else c) s"

function percent_decode :: "string \<Rightarrow> string" where
  "percent_decode [] = []"
| "percent_decode (c # cs) =
     (if c = CHR ''%'' \<and> 2 \<le> length cs
         \<and> digit_value 16 (cs ! 0) \<noteq> None \<and> digit_value 16 (cs ! 1) \<noteq> None
      then char_of (16 * the (digit_value 16 (cs ! 0)) + the (digit_value 16 (cs ! 1)))
             # percent_decode (drop 2 cs)
      else c # percent_decode cs)"
  by pat_completeness auto
termination
  by (relation "measure length") auto

definition parse_pair :: "string \<Rightarrow> string \<times> string" where
  "parse_pair piece =
     (percent_decode (plus_to_space (takeWhile (\<lambda>c. c \<noteq> CHR ''='') piece)),
      percent_decode (plus_to_space (drop 1 (dropWhile (\<lambda>c. c \<noteq> CHR ''='') piece))))"

definition params_parse :: "string \<Rightarrow> search_params" where
  "params_parse init =
     map parse_pair
       (filter (\<lambda>piece. piece \<noteq> [])
          (split_on CHR ''&'' (if prefix ''?'' init then tl init else init)))"

section \<open>List views: the state kept in the URL (Pages/Habitats, Pages/Species)\<close>

text \<open>
  The state of a list view that the URL holds.  The fields are the component's state
  variables \<open>page\<close>, \<open>pageSize\<close>, \<open>searchName\<close> and \<open>filter\<close>.
\<close>

record page_state =
  st_page :: int
  st_pageSize :: int
  st_searchName :: string
  st_filter :: string

text \<open>
  The argument object of \<open>updateURL\<close>; \<open>name\<close> and \<open>filter\<close> may be missing
  (\<open>undefined\<close>).
\<close>

record param_obj =
  po_name :: "string option"
  po_filter :: "string option"
  po_page :: int
  po_pageSize :: int

definition truthy_string :: "string option \<Rightarrow> bool" where
  "truthy_string v = (case v of None \<Rightarrow> False | Some s \<Rightarrow> s \<noteq> [])"

text \<open>
  \<open>updateURL\<close> of Habitats: the string passed to \<open>navigate\<close>, which becomes
  \<open>location.search\<close>.
\<close>

definition updateURL :: "param_obj \<Rightarrow> string" where
  "updateURL paramObj =
     (let params0 = [];
          params1 = (if truthy_string (po_filter paramObj)
                     then params_set params0 ''filter'' (the (po_filter paramObj)) else params0);
          params2 = (if truthy_string (po_name paramObj)
                     then params_set params1 ''name'' (the (po_name paramObj)) else params1);
          params3 = params_set params2 ''page'' (number_toString (po_page paramObj));
          params4 = params_set params3 ''pageSize'' (number_toString (po_pageSize paramObj))
      in ''?'' @ params_toString params4)"

text \<open>The pairs that \<open>updateURL\<close> of Habitats has set when it serializes them.\<close>

definition url_pairs :: "param_obj \<Rightarrow> search_params" where
  "url_pairs po =
     (if truthy_string (po_filter po) then [(''filter'', the (po_filter po))] else []) @
     (if truthy_string (po_name po) then [(''name'', the (po_name po))] else []) @
     [(''page'', number_toString (po_page po)), (''pageSize'', number_toString (po_pageSize po))]"

text \<open>\<open>updateURL\<close> of Species sets \<open>name\<close> before \<open>filter\<close>.\<close>

definition updateURL_species :: "param_obj \<Rightarrow> string" where
  "updateURL_species paramsObj =
     (let params0 = [];
          params1 = (if truthy_string (po_name paramsObj)
                     then params_set params0 ''name'' (the (po_name paramsObj)) else params0);
          params2 = (if truthy_string (po_filter paramsObj)
                     then params_set params1 ''filter'' (the (po_filter paramsObj)) else params1);
          params3 = params_set params2 ''page'' (number_toString (po_page paramsObj));
          params4 = params_set params3 ''pageSize'' (number_toString (po_pageSize paramsObj))
      in ''?'' @ params_toString params4)"

text \<open>
  The effect that reads the state from \<open>location.search\<close> (the same in both views).
  \<open>parseInt\<close> is applied to the string of its argument, which is \<open>null\<close> for a missing
  key.
\<close>

definition null_string :: "string option \<Rightarrow> string" where
  "null_string v = (case v of None \<Rightarrow> ''null'' | Some s \<Rightarrow> s)"

definition string_or_empty :: "string option \<Rightarrow> string" where
  "string_or_empty v = (case v of None \<Rightarrow> [] | Some s \<Rightarrow> s)"

definition decode :: "string \<Rightarrow> page_state" where
  "decode search =
     (let params = params_parse search in
      \<lparr> st_page = or_default (parseInt (null_string (params_get params ''page''))) 1,
        st_pageSize = or_default (parseInt (null_string (params_get params ''pageSize''))) 5,
        st_searchName = string_or_empty (params_get params ''name''),
        st_filter = string_or_empty (params_get params ''filter'') \<rparr>)"



text \<open>
  The test of \<open>/^[A-Za-z0-9\s\-']+$/\<close>: the string is not empty and consists of ASCII
  letters, digits, hyphens, apostrophes and white space.
\<close>

definition allowed_char :: "char \<Rightarrow> bool" where
  "allowed_char c = (is_upper c \<or> is_lower c \<or> is_digit c \<or> c = CHR ''-'' \<or> c = CHR 0x27)"

function allowed_run :: "string \<Rightarrow> bool" where
  "allowed_run s =
     (if s = [] then True
      else case ws_prefix s of
             Some w \<Rightarrow> allowed_run (drop (length w) s)
           | None \<Rightarrow> allowed_char (hd s) \<and> allowed_run (tl s))"
  by pat_completeness auto
termination
proof (relation "measure length")
  show "wf (measure length)" by simp
next
  fix s w :: string
  assume "s \<noteq> []" and "ws_prefix s = Some w"
  then have "w \<in> set white_space"
    by (auto simp: ws_prefix_def find_Some_iff)
  then have "w \<noteq> []"
    by (auto simp: white_space_def)
  with \<open>s \<noteq> []\<close> show "(drop (length w) s, s) \<in> measure length"
    by simp
next
  fix s :: string
  assume "s \<noteq> []"
  then show "(tl s, s) \<in> measure length"
    by (cases s) simp_all
qed

declare allowed_run.simps [simp del]

definition validPattern_test :: "string \<Rightarrow> bool" where
  "validPattern_test s = (s \<noteq> [] \<and> allowed_run s)"

text \<open>
  \<open>handleSearchSubmit\<close> of Habitats: the string passed to \<open>navigate\<close>, if any, and the
  dialog shown, if any.
\<close>

definition handleSearchSubmit :: "page_state \<Rightarrow> string option \<times> notice option" where
  "handleSearchSubmit s =
     (if trim (st_searchName s) = []
      then (None, Some (Swal ''Error'' ''Please enter a search term.'' ''error''))
      else if \<not> validPattern_test (st_searchName s)
      then (None, Some (Swal ''Invalid input''
              ''Allowed characters: letters, numbers, spaces, hyphens, apostrophes.'' ''info''))
      else (Some (updateURL \<lparr> po_name = Some (st_searchName s), po_filter = Some (st_filter s),
                              po_page = 1, po_pageSize = st_pageSize s \<rparr>), None))"

text \<open>\<open>handleSearchSubmit\<close> of Species differs in the first dialog and in \<open>updateURL\<close>.\<close>

definition handleSearchSubmit_species :: "page_state \<Rightarrow> string option \<times> notice option" where
  "handleSearchSubmit_species s =
     (if trim (st_searchName s) = []
      then (None, Some (Swal ''Info'' ''Please enter a search term to search.'' ''info''))
      else if \<not> validPattern_test (st_searchName s)
      then (None, Some (Swal ''Invalid input''
              ''Allowed characters: letters, numbers, spaces, hyphens, apostrophes.'' ''info''))
      else (Some (updateURL_species \<lparr> po_name = Some (st_searchName s), po_filter = Some (st_filter s),
                              po_page = 1, po_pageSize = st_pageSize s \<rparr>), None))"

text \<open>
  The condition under which a search is accepted, in the words of the specification: the
  trimmed search term is not empty and matches the allow-list pattern.
\<close>

definition search_term_accepted :: "string \<Rightarrow> bool" where
  "search_term_accepted name = (trim name \<noteq> [] \<and> validPattern_test (trim name))"

section \<open>Properties of the pagination window\<close>

lemma numbered_upto: "numbered page i endP = map (\<lambda>k. PageButton k (page = k)) [i..endP]"
proof (induction page i endP rule: numbered.induct)
  case (1 page i endP)
  show ?case
  proof (cases "i \<le> endP")
    case True
    then have "[i..endP] = i # [i + 1..endP]"
      by (simp add: upto_rec1)
    with True 1 show ?thesis
      by (subst numbered.simps) simp
  next
    case False
    then show ?thesis
      by (subst numbered.simps) simp
  qed
qed

lemma labels_append: "labels (xs @ ys) = labels xs @ labels ys"
  by (induction xs rule: labels.induct) simp_all

lemma current_labels_append: "current_labels (xs @ ys) = current_labels xs @ current_labels ys"
  by (induction xs rule: current_labels.induct) simp_all

lemma labels_buttons: "labels (map (\<lambda>k. PageButton k (f k)) ks) = ks"
  by (induction ks) simp_all

lemma current_labels_buttons:
  "current_labels (map (\<lambda>k. PageButton k (f k)) ks) = filter f ks"
  by (induction ks) simp_all

lemma window_upto:
  "window page totalPages visiblePages =
     [startPage page totalPages visiblePages..endPage page totalPages visiblePages]"
  by (simp add: window_def Pagination_def numbered_upto labels_append labels_buttons)

lemma current_labels_Pagination:
  "current_labels (Pagination page totalPages visiblePages) =
     filter (\<lambda>k. page = k)
       [startPage page totalPages visiblePages..endPage page totalPages visiblePages]"
  by (simp add: Pagination_def numbered_upto current_labels_append current_labels_buttons)

lemma filter_eq_upto: "filter (\<lambda>k. p = k) [a..b] = (if a \<le> p \<and> p \<le> b then [p] else [])"
proof (induction a b rule: upto.induct)
  case (1 i j)
  show ?case
  proof (cases "i \<le> j")
    case True
    then have "[i..j] = i # [i + 1..j]" by (simp add: upto_rec1)
    with True 1 show ?thesis by auto
  next
    case False
    then show ?thesis by simp
  qed
qed

lemma window_span:
  assumes "1 \<le> visiblePages" and "visiblePages \<le> totalPages"
  shows "endPage page totalPages visiblePages =
           startPage page totalPages visiblePages + visiblePages - 1"
    and "1 \<le> startPage page totalPages visiblePages"
    and "endPage page totalPages visiblePages \<le> totalPages"
  using assms by (auto simp: startPage_def endPage_def startPage0_def endPage0_def)

lemma startPage_centred:
  assumes "1 \<le> page" "page \<le> totalPages" "1 \<le> visiblePages" "visiblePages \<le> totalPages"
  shows "startPage page totalPages visiblePages \<le> page"
    and "page \<le> endPage page totalPages visiblePages"
  using assms by (auto simp: startPage_def endPage_def startPage0_def endPage0_def)

lemma window_all_le: "l \<in> set (window page totalPages visiblePages) \<Longrightarrow> l \<le> totalPages"
  by (auto simp: window_upto endPage_def split: if_splits)

lemma window_near_end:
  assumes "1 \<le> totalPages" "1 \<le> visiblePages" "totalPages \<le> endPage0 page visiblePages"
  shows "window page totalPages visiblePages \<noteq> []"
    and "last (window page totalPages visiblePages) = totalPages"
proof -
  have e: "endPage page totalPages visiblePages = totalPages"
    using assms by (simp add: endPage_def)
  have s: "startPage page totalPages visiblePages \<le> totalPages"
    using assms by (auto simp: startPage_def endPage0_def)
  from e s show "window page totalPages visiblePages \<noteq> []"
    by (simp add: window_upto)
  from e s show "last (window page totalPages visiblePages) = totalPages"
    by (simp add: window_upto upto_rec2)
qed

lemma numbered_no_prev_next:
  "x \<in> set (numbered page i endP) \<Longrightarrow> \<not> is_previous x \<and> \<not> is_next x"
  by (auto simp: numbered_upto)

text \<open>
  Claim C1, as amended.  For \<open>1 \<le> visiblePages \<le> totalPages\<close> and every \<open>page\<close> the
  numbered buttons are exactly the consecutive integers from \<open>startPage\<close> to
  \<open>startPage + visiblePages - 1\<close>: the window has \<open>visiblePages\<close> entries and is
  contiguous.  It contains \<open>page\<close> iff \<open>1 \<le> page \<le> totalPages\<close>, and then the buttons
  marked current are exactly the one labelled \<open>page\<close>; otherwise no button is marked.
\<close>

theorem pagination_window_centred:
  assumes "1 \<le> visiblePages" and "visiblePages \<le> totalPages"
  shows "length (window page totalPages visiblePages) = nat visiblePages
       \<and> window page totalPages visiblePages =
           [startPage page totalPages visiblePages..
            startPage page totalPages visiblePages + visiblePages - 1]
       \<and> (page \<in> set (window page totalPages visiblePages) \<longleftrightarrow> 1 \<le> page \<and> page \<le> totalPages)
       \<and> current_labels (Pagination page totalPages visiblePages) =
           (if 1 \<le> page \<and> page \<le> totalPages then [page] else [])"
proof -
  note s = window_span [OF assms, of page]
  have w: "window page totalPages visiblePages =
      [startPage page totalPages visiblePages..
       startPage page totalPages visiblePages + visiblePages - 1]"
    using s(1) by (simp add: window_upto)
  have len: "length (window page totalPages visiblePages) = nat visiblePages"
    using assms by (simp add: w)
  have inside: "startPage page totalPages visiblePages \<le> page \<and>
                page \<le> endPage page totalPages visiblePages \<longleftrightarrow> 1 \<le> page \<and> page \<le> totalPages"
  proof (cases "1 \<le> page \<and> page \<le> totalPages")
    case True
    with startPage_centred [of page totalPages visiblePages] assms show ?thesis
      by simp
  next
    case False
    with s(2,3) show ?thesis
      by auto
  qed
  have mem: "page \<in> set (window page totalPages visiblePages) \<longleftrightarrow> 1 \<le> page \<and> page \<le> totalPages"
    using inside by (simp add: window_upto)
  have cur: "current_labels (Pagination page totalPages visiblePages) =
           (if 1 \<le> page \<and> page \<le> totalPages then [page] else [])"
    using inside by (simp add: current_labels_Pagination filter_eq_upto)
  from len w mem cur show ?thesis by blast
qed

theorem pagination_window_centred_witness:
  "length (window 3 10 5) = 5 \<and> window 3 10 5 = [1, 2, 3, 4, 5]
   \<and> 3 \<in> set (window 3 10 5) \<and> current_labels (Pagination 3 10 5) = [3]"
proof -
  have s: "startPage 3 10 5 = 1"
    by (simp add: startPage_def endPage0_def startPage0_def)
  have u: "[1..5] = [1, 2, 3, 4, 5 :: int]"
    by (simp add: upto_rec1)
  from pagination_window_centred [of 5 10 3] s u show ?thesis
    by simp
qed

text \<open>
  Claim C1 as stated fails when \<open>page\<close> lies beyond \<open>totalPages\<close>: with \<open>page = 12\<close>,
  \<open>totalPages = 10\<close> and \<open>visiblePages = 5\<close> (so \<open>visiblePages \<le> totalPages\<close>) the
  window is 6 to 10, which does not contain 12, and no button is marked current.
\<close>

theorem pagination_window_centred_counterexample:
  "(5::int) \<le> 10 \<and> window 12 10 5 = [6, 7, 8, 9, 10]
   \<and> 12 \<notin> set (window 12 10 5) \<and> current_labels (Pagination 12 10 5) = []"
proof -
  have s: "startPage 12 10 5 = 6" and e: "endPage 12 10 5 = 10"
    by (simp_all add: startPage_def endPage_def endPage0_def startPage0_def)
  have u: "[6..10] = [6, 7, 8, 9, 10 :: int]"
    by (simp add: upto_rec1)
  from s e u show ?thesis
    by (simp add: window_upto current_labels_Pagination)
qed

text \<open>
  Claim C3.  For \<open>page \<ge> 1\<close>, \<open>totalPages \<ge> 1\<close> and \<open>visiblePages \<ge> 1\<close> no numbered
  button exceeds \<open>totalPages\<close>; when the unclamped window reaches \<open>totalPages\<close> or
  beyond (\<open>page\<close> near the end) the window is not empty and its last entry is
  \<open>totalPages\<close>; in particular the last entry for \<open>page = 9\<close>, \<open>totalPages = 10\<close>,
  \<open>visiblePages = 5\<close> is 10.
\<close>

theorem pagination_window_clamped:
  assumes "1 \<le> page" and "1 \<le> totalPages" and "1 \<le> visiblePages"
  shows "(\<forall>l \<in> set (window page totalPages visiblePages). l \<le> totalPages)
       \<and> (totalPages \<le> page + (visiblePages - 1) - visiblePages div 2 \<longrightarrow>
            window page totalPages visiblePages \<noteq> [] \<and>
            last (window page totalPages visiblePages) = totalPages)
       \<and> window 9 10 5 \<noteq> [] \<and> last (window 9 10 5) = 10"
proof -
  have a: "\<forall>l \<in> set (window page totalPages visiblePages). l \<le> totalPages"
    by (simp add: window_all_le)
  have b: "window page totalPages visiblePages \<noteq> [] \<and>
           last (window page totalPages visiblePages) = totalPages"
    if "totalPages \<le> page + (visiblePages - 1) - visiblePages div 2"
  proof -
    from that have "totalPages \<le> endPage0 page visiblePages"
      by (simp add: endPage0_def startPage0_def)
    with assms show ?thesis
      by (simp add: window_near_end)
  qed
  have "(10::int) \<le> endPage0 9 5"
    by (simp add: endPage0_def startPage0_def)
  then have c: "window 9 10 5 \<noteq> [] \<and> last (window 9 10 5) = 10"
    by (simp add: window_near_end)
  from a b c show ?thesis by blast
qed

theorem pagination_window_clamped_witness:
  "(1::int) \<le> 9 \<and> (1::int) \<le> 10 \<and> (1::int) \<le> 5
   \<and> list_all (\<lambda>l. l \<le> 10) (window 9 10 5) \<and> window 9 10 5 = [6, 7, 8, 9, 10]
   \<and> last (window 9 10 5) = 10"
proof -
  have s: "startPage 9 10 5 = 6" and e: "endPage 9 10 5 = 10"
    by (simp_all add: startPage_def endPage_def endPage0_def startPage0_def)
  have u: "[6..10] = [6, 7, 8, 9, 10 :: int]"
    by (simp add: upto_rec1)
  have w: "window 9 10 5 = [6, 7, 8, 9, 10]"
    using s e u by (simp add: window_upto)
  from pagination_window_clamped [of 9 10 5] w show ?thesis
    by simp
qed

text \<open>
  Claim C4.  The rendered list has a Previous item iff \<open>page > 1\<close> and a Next item iff
  \<open>page < totalPages\<close>; for \<open>page = 1\<close> and \<open>totalPages = 1\<close> (and any
  \<open>visiblePages \<ge> 1\<close>) the component renders the single button 1, marked current, with
  neither Previous nor Next.
\<close>

theorem pagination_prev_next:
  "((\<exists>x \<in> set (Pagination page totalPages visiblePages). is_previous x) \<longleftrightarrow> page > 1)
   \<and> ((\<exists>x \<in> set (Pagination page totalPages visiblePages). is_next x) \<longleftrightarrow> page < totalPages)
   \<and> (1 \<le> visiblePages \<longrightarrow> Pagination 1 1 visiblePages = [PageButton 1 True])"
proof -
  have p: "(\<exists>x \<in> set (Pagination page totalPages visiblePages). is_previous x) \<longleftrightarrow> page > 1"
    by (auto simp: Pagination_def dest: numbered_no_prev_next)
  have n: "(\<exists>x \<in> set (Pagination page totalPages visiblePages). is_next x) \<longleftrightarrow> page < totalPages"
    by (auto simp: Pagination_def dest: numbered_no_prev_next)
  have o: "Pagination 1 1 visiblePages = [PageButton 1 True]" if "1 \<le> visiblePages"
  proof -
    have "startPage 1 1 visiblePages = 1" and "endPage 1 1 visiblePages = 1"
      using that by (auto simp: startPage_def endPage_def endPage0_def startPage0_def)
    then show ?thesis
      by (simp add: Pagination_def numbered_upto)
  qed
  from p n o show ?thesis by blast
qed

theorem pagination_prev_next_witness:
  "\<not> (\<exists>x \<in> set (Pagination 1 1 5). is_previous x)
   \<and> \<not> (\<exists>x \<in> set (Pagination 1 1 5). is_next x)
   \<and> Pagination 1 1 5 = [PageButton 1 True]"
  using pagination_prev_next [of 1 1 5] by simp

section \<open>Properties of FetchWrapper.sendRequest\<close>

lemma sendRequest_trace: "snd (sendRequest net baseURL uri opts) = [fetchOptions baseURL uri opts]"
  by (simp add: sendRequest_def Let_def)


lemma sendRequest_unreadable:
  assumes "net (fetchOptions baseURL uri opts) = Resolved r" and "responseData r = Inl m"
  shows "fst (sendRequest net baseURL uri opts) =
           Inl (CustomError \<lparr> message = (if m \<noteq> [] then m else ''Network Error''),
                               statusCode = 0, details = JObj [] \<rparr>)"
  using assms by (simp add: sendRequest_def Let_def sendRequest_try_def)

lemma sendRequest_ok:
  assumes "net (fetchOptions baseURL uri opts) = Resolved r" and "responseData r = Inr d"
    and "ok r"
  shows "fst (sendRequest net baseURL uri opts) = Inr d"
  using assms by (simp add: sendRequest_def Let_def sendRequest_try_def)

lemma sendRequest_not_ok:
  assumes "net (fetchOptions baseURL uri opts) = Resolved r" and "responseData r = Inr d"
    and "\<not> ok r"
  shows "fst (sendRequest net baseURL uri opts) =
           Inl (CustomError \<lparr> message = error_message d r, statusCode = status r, details = d \<rparr>)"
  using assms by (simp add: sendRequest_def Let_def sendRequest_try_def)


text \<open>
  Claim C8, as amended.  \<open>sendRequest\<close> makes exactly one \<open>fetch\<close> call.  When the
  response arrives and its body is read (\<open>responseData r = Inr d\<close>), a successful response
  returns the body, and a response that is not successful throws a \<open>CustomError\<close> whose
  \<open>statusCode\<close> is the HTTP status and whose \<open>details\<close> is the body.  A response that is
  not successful never makes \<open>sendRequest\<close> return normally, whether its body can be read
  or not.
\<close>

theorem sendRequest_normalizes:
  "snd (sendRequest net baseURL uri opts) = [fetchOptions baseURL uri opts]
   \<and> (net (fetchOptions baseURL uri opts) = Resolved r \<longrightarrow>
        (ok r \<and> responseData r = Inr d \<longrightarrow> fst (sendRequest net baseURL uri opts) = Inr d)
      \<and> (\<not> ok r \<and> responseData r = Inr d \<longrightarrow>
           fst (sendRequest net baseURL uri opts) =
             Inl (CustomError \<lparr> message = error_message d r, statusCode = status r, details = d \<rparr>))
      \<and> (\<not> ok r \<longrightarrow> (\<forall>v. fst (sendRequest net baseURL uri opts) \<noteq> Inr v)))"
proof -
  have never: "fst (sendRequest net baseURL uri opts) \<noteq> Inr v"
    if "net (fetchOptions baseURL uri opts) = Resolved r" and "\<not> ok r" for v
  proof (cases "responseData r")
    case (Inl m)
    with that show ?thesis by (simp add: sendRequest_unreadable)
  next
    case (Inr d')
    with that show ?thesis by (simp add: sendRequest_not_ok)
  qed
  show ?thesis
    using never by (auto simp: sendRequest_trace sendRequest_ok sendRequest_not_ok)
qed

theorem sendRequest_normalizes_witness:
  "fst (sendRequest
         (\<lambda>req. Resolved \<lparr> status = 404, statusText = ''Not Found'',
            contentType = Some ''application/json; charset=utf-8'',
            json_result = Inr (JObj [(''message'', JStr ''Habitat not found'')]),
            text_result = Inr [] \<rparr>)
         ''http://localhost/species-api'' ''/habitats?page=1&pageSize=5''
         \<lparr> opt_method = Some ''GET'', opt_headers = [], opt_body = None \<rparr>)
     = Inl (CustomError \<lparr> message = ''Habitat not found'', statusCode = 404,
                          details = JObj [(''message'', JStr ''Habitat not found'')] \<rparr>)
   \<and> fst (sendRequest
         (\<lambda>req. Resolved \<lparr> status = 200, statusText = ''OK'',
            contentType = Some ''text/plain'',
            json_result = Inl ''Unexpected token d in JSON at position 0'',
            text_result = Inr ''done'' \<rparr>)
         ''http://localhost/species-api'' ''/habitats?page=1&pageSize=5''
         \<lparr> opt_method = Some ''GET'', opt_headers = [], opt_body = None \<rparr>)
     = Inr (JStr ''done'')"
proof -
  let ?opts = "\<lparr> opt_method = Some ''GET'', opt_headers = [], opt_body = None \<rparr>"
  let ?r404 = "\<lparr> status = 404, statusText = ''Not Found'',
            contentType = Some ''application/json; charset=utf-8'',
            json_result = Inr (JObj [(''message'', JStr ''Habitat not found'')]),
            text_result = Inr [] \<rparr>"
  let ?r200 = "\<lparr> status = 200, statusText = ''OK'',
            contentType = Some ''text/plain'',
            json_result = Inl ''Unexpected token d in JSON at position 0'',
            text_result = Inr ''done'' \<rparr>"
  have nj: "\<not> sublist ''application/json'' ''text/plain''"
    by code_simp
  have f: "\<not> ok ?r404"
    "responseData ?r404 = Inr (JObj [(''message'', JStr ''Habitat not found'')])"
    "error_message (JObj [(''message'', JStr ''Habitat not found'')]) ?r404 = ''Habitat not found''"
    "ok ?r200" "responseData ?r200 = Inr (JStr ''done'')"
    by (simp_all add: responseData_def isJSON_def ok_def error_message_def template_string_def nj)
  from sendRequest_normalizes
    [of "\<lambda>req. Resolved ?r404" "''http://localhost/species-api''"
        "''/habitats?page=1&pageSize=5''" ?opts ?r404
        "JObj [(''message'', JStr ''Habitat not found'')]"]
    sendRequest_normalizes
    [of "\<lambda>req. Resolved ?r200" "''http://localhost/species-api''"
        "''/habitats?page=1&pageSize=5''" ?opts ?r200 "JStr ''done''"]
    f
  show ?thesis
    by simp
qed

text \<open>
  Claim C8 as stated fails where the body of the response cannot be read: a response with
  status 500 that announces JSON and carries a body that is not JSON makes
  \<open>response.json ()\<close> reject, and the error thrown has \<open>statusCode\<close> 0 and empty
  \<open>details\<close>, not the HTTP status and the payload.
\<close>

theorem sendRequest_normalizes_counterexample:
  "\<not> ok \<lparr> status = 500, statusText = ''Internal Server Error'',
            contentType = Some ''application/json'',
            json_result = Inl ''Unexpected token < in JSON at position 0'',
            text_result = Inr ''<b>Fatal error</b>'' \<rparr>
   \<and> fst (sendRequest
         (\<lambda>req. Resolved \<lparr> status = 500, statusText = ''Internal Server Error'',
            contentType = Some ''application/json'',
            json_result = Inl ''Unexpected token < in JSON at position 0'',
            text_result = Inr ''<b>Fatal error</b>'' \<rparr>)
         ''http://localhost/species-api'' ''/habitats''
         \<lparr> opt_method = Some ''POST'', opt_headers = [], opt_body = Some (JArr [JObj []]) \<rparr>)
     = Inl (CustomError \<lparr> message = ''Unexpected token < in JSON at position 0'',
                          statusCode = 0, details = JObj [] \<rparr>)"
  by (simp add: sendRequest_def sendRequest_try_def responseData_def isJSON_def ok_def)



section \<open>Properties of the CreateResource error mapping\<close>






section \<open>Properties of the exhaustive paged fetch\<close>

lemma map_throwing_Inr: "map_throwing Inr xs = Inr xs"
  by (induction xs) simp_all

lemma map_throwing_item_id:
  assumes "JNull \<notin> set xs"
  shows "map_throwing (item_id t) xs =
           Inr (map (\<lambda>i. get_prop (Some i) (if t = ''habitats'' then ''habitat_id'' else ''species_id'')) xs)"
  using assms by (induction xs) (auto simp: item_id_def)

lemma fetch_loop_drains:
  assumes "\<And>p. page \<le> p \<Longrightarrow> p \<le> N \<Longrightarrow>
             api (page_url endpoint p) = Inr \<lparr> data = items p, total_pages = Some N \<rparr>"
    and "\<And>p. page \<le> p \<Longrightarrow> p \<le> N \<Longrightarrow> map_throwing f (items p) = Inr (ids p)"
    and "page \<le> N" and "1 \<le> N"
  shows "fetch_loop f api endpoint all page requested =
           Some (Inr (all @ concat (map ids [page..N])),
                 requested @ map (page_url endpoint) [page..N])"
  using assms
proof (induction "nat (N - page)" arbitrary: page all requested)
  case 0
  then have eq: "page = N" by simp
  have srv: "api (page_url endpoint N) = Inr \<lparr> data = items N, total_pages = Some N \<rparr>"
    and ids: "map_throwing f (items N) = Inr (ids N)"
    using "0.prems" eq by simp_all
  have "or_default (Some N) 1 = N"
    using \<open>1 \<le> N\<close> by (simp add: or_default_def)
  then show ?case
    unfolding eq by (subst fetch_loop.simps) (simp add: srv ids)
next
  case (Suc k)
  then have lt: "page < N" by simp
  have srv: "api (page_url endpoint page) = Inr \<lparr> data = items page, total_pages = Some N \<rparr>"
    and ids: "map_throwing f (items page) = Inr (ids page)"
    using Suc.prems by simp_all
  have d: "or_default (Some N) 1 = N"
    using \<open>1 \<le> N\<close> by (simp add: or_default_def)
  have k: "k = nat (N - (page + 1))"
    using Suc.hyps(2) by simp
  have rest: "fetch_loop f api endpoint (all @ ids page) (page + 1)
                (requested @ [page_url endpoint page]) =
              Some (Inr ((all @ ids page) @ concat (map ids [page + 1..N])),
                    (requested @ [page_url endpoint page]) @ map (page_url endpoint) [page + 1..N])"
    using lt Suc.prems by (intro Suc.hyps(1) [OF k]) simp_all
  have u: "[page..N] = page # [page + 1..N]"
    using lt by (simp add: upto_rec1)
  show ?case
    using lt by (subst fetch_loop.simps) (simp add: srv ids d rest u)
qed

text \<open>
  Claim C6.  Let the server answer the request for page \<open>p\<close> of the collection, for
  every \<open>p\<close> from 1 to \<open>N\<close>, with the items \<open>items p\<close> and \<open>total_pages = N\<close>, where
  \<open>N \<ge> 1\<close>.  Then the loop of \<open>fetchAllIds\<close> returns: it requests the pages 1 to \<open>N\<close>
  in ascending order at page size 20, which are exactly \<open>N\<close> requests, and its result is
  \<open>items 1 @ ... @ items N\<close>.  The loop of \<open>fetchIds\<close> does the same and stores the
  identifiers of these items, in this order, provided no item is \<open>null\<close>.
\<close>

theorem exhaustive_fetch:
  assumes "1 \<le> N"
    and "\<forall>p. 1 \<le> p \<and> p \<le> N \<longrightarrow>
           api (page_url endpoint p) = Inr \<lparr> data = items p, total_pages = Some N \<rparr>"
  shows "fetchAllIds api endpoint =
           Some (Inr (concat (map items [1..N])), map (page_url endpoint) [1..N])
       \<and> length (map (page_url endpoint) [1..N]) = nat N
       \<and> (endpoint = ''/'' @ del_resourceType st \<and> (\<forall>p. 1 \<le> p \<and> p \<le> N \<longrightarrow> JNull \<notin> set (items p)) \<longrightarrow>
            fetchIds api st =
              Some (st \<lparr> del_resourceId :=
                          concat (map (\<lambda>p. map (\<lambda>i. get_prop (Some i)
                                     (if del_resourceType st = ''habitats'' then ''habitat_id''
                                      else ''species_id'')) (items p)) [1..N]),
                        del_selectedId := [] \<rparr>,
                    None, map (page_url endpoint) [1..N]))"
proof -
  have all: "fetchAllIds api endpoint =
           Some (Inr (concat (map items [1..N])), map (page_url endpoint) [1..N])"
    unfolding fetchAllIds_def
    using assms by (subst fetch_loop_drains [where N = N and items = items and ids = items])
      (simp_all add: map_throwing_Inr)
  have len: "length (map (page_url endpoint) [1..N]) = nat N"
    using assms(1) by simp
  have del: "fetchIds api st =
              Some (st \<lparr> del_resourceId :=
                          concat (map (\<lambda>p. map (\<lambda>i. get_prop (Some i)
                                     (if del_resourceType st = ''habitats'' then ''habitat_id''
                                      else ''species_id'')) (items p)) [1..N]),
                        del_selectedId := [] \<rparr>,
                    None, map (page_url endpoint) [1..N])"
    if e: "endpoint = ''/'' @ del_resourceType st"
      and nn: "\<forall>p. 1 \<le> p \<and> p \<le> N \<longrightarrow> JNull \<notin> set (items p)"
  proof -
    have "fetch_loop (item_id (del_resourceType st)) api endpoint [] 1 [] =
            Some (Inr ([] @ concat (map (\<lambda>p. map (\<lambda>i. get_prop (Some i)
                                     (if del_resourceType st = ''habitats'' then ''habitat_id''
                                      else ''species_id'')) (items p)) [1..N])),
                  [] @ map (page_url endpoint) [1..N])"
      using assms nn by (intro fetch_loop_drains [where items = items]) (simp_all add: map_throwing_item_id)
    then show ?thesis
      by (simp add: fetchIds_def e)
  qed
  from all len del show ?thesis by blast
qed

theorem exhaustive_fetch_witness:
  "fetchAllIds (\<lambda>u. Inr \<lparr> data = [JObj [(''habitat_id'', JStr u)]], total_pages = Some 3 \<rparr>)
       ''/habitats''
     = Some (Inr [JObj [(''habitat_id'', JStr ''/habitats?page=1&pageSize=20'')],
                  JObj [(''habitat_id'', JStr ''/habitats?page=2&pageSize=20'')],
                  JObj [(''habitat_id'', JStr ''/habitats?page=3&pageSize=20'')]],
             [''/habitats?page=1&pageSize=20'', ''/habitats?page=2&pageSize=20'',
              ''/habitats?page=3&pageSize=20''])
   \<and> fetchIds (\<lambda>u. Inr \<lparr> data = [JObj [(''habitat_id'', JStr u)]], total_pages = Some 3 \<rparr>)
       \<lparr> del_resourceType = ''habitats'', del_resourceId = [], del_selectedId = ''HA-001'' \<rparr>
     = Some (\<lparr> del_resourceType = ''habitats'',
                del_resourceId = [Some (JStr ''/habitats?page=1&pageSize=20''),
                                  Some (JStr ''/habitats?page=2&pageSize=20''),
                                  Some (JStr ''/habitats?page=3&pageSize=20'')],
                del_selectedId = [] \<rparr>,
             None,
             [''/habitats?page=1&pageSize=20'', ''/habitats?page=2&pageSize=20'',
              ''/habitats?page=3&pageSize=20''])"
proof -
  have u: "[1..3] = [1, 2, 3 :: int]"
    by (simp add: upto_rec1)
  have p1: "page_url ''/habitats'' 1 = ''/habitats?page=1&pageSize=20''"
    and p2: "page_url ''/habitats'' 2 = ''/habitats?page=2&pageSize=20''"
    and p3: "page_url ''/habitats'' 3 = ''/habitats?page=3&pageSize=20''"
    by code_simp+
  from exhaustive_fetch
    [of 3 "\<lambda>u. Inr \<lparr> data = [JObj [(''habitat_id'', JStr u)]], total_pages = Some 3 \<rparr>"
        "''/habitats''" "\<lambda>p. [JObj [(''habitat_id'', JStr (page_url ''/habitats'' p))]]"
        "\<lparr> del_resourceType = ''habitats'', del_resourceId = [], del_selectedId = ''HA-001'' \<rparr>"]
  show ?thesis
    by (simp add: u p1 p2 p3)
qed

section \<open>Properties of the URL state codec\<close>


lemma digit_value_hex_digit: "d < 16 \<Longrightarrow> digit_value 16 (hex_digit d) = Some d"
  by (simp add: digit_value_def hex_digit_def Let_def)

lemma hex_digit_not_plus: "d < 16 \<Longrightarrow> hex_digit d \<noteq> CHR ''+''"
  by (auto simp: hex_digit_def dest!: arg_cong [where f = "of_char :: char \<Rightarrow> nat"] split: if_splits)

lemma unreserved_not_special:
  assumes "unreserved c"
  shows "c \<noteq> CHR ''+''" "c \<noteq> CHR ''%''" "c \<noteq> CHR ''&''" "c \<noteq> CHR ''=''"
  using assms by (auto simp: unreserved_def is_digit_def is_upper_def is_lower_def)

lemma char_of_div_mod: "char_of (16 * ((of_char c :: nat) div 16) + (of_char c :: nat) mod 16) = c"
  by simp

lemma decode_encode_byte:
  "percent_decode (plus_to_space (encode_byte c @ t)) = c # percent_decode (plus_to_space t)"
proof -
  consider (u) "unreserved c" | (sp) "\<not> unreserved c" "c = CHR '' ''"
    | (esc) "\<not> unreserved c" "c \<noteq> CHR '' ''"
    by blast
  then show ?thesis
  proof cases
    case u
    then show ?thesis
      using unreserved_not_special [OF u] by (simp add: encode_byte_def plus_to_space_def)
  next
    case sp
    then show ?thesis
      by (simp add: encode_byte_def plus_to_space_def)
  next
    case esc
    have lt: "(of_char c :: nat) div 16 < 16" "(of_char c :: nat) mod 16 < 16"
      by (simp_all add: less_mult_imp_div_less)
    show ?thesis
      using esc lt
      by (simp add: encode_byte_def plus_to_space_def hex_digit_not_plus digit_value_hex_digit)
  qed
qed


lemma decode_form_encode: "percent_decode (plus_to_space (form_encode s)) = s"
proof (induction s)
  case Nil
  show ?case by (simp add: form_encode_def plus_to_space_def)
next
  case (Cons c s)
  have "form_encode (c # s) = encode_byte c @ form_encode s"
    by (simp add: form_encode_def)
  with Cons show ?case
    by (simp add: decode_encode_byte)
qed

lemma hex_digit_not_sep: "d < 16 \<Longrightarrow> hex_digit d \<noteq> CHR ''&'' \<and> hex_digit d \<noteq> CHR ''=''"
  by (auto simp: hex_digit_def dest!: arg_cong [where f = "of_char :: char \<Rightarrow> nat"] split: if_splits)

lemma encode_byte_no_sep: "CHR ''&'' \<notin> set (encode_byte c) \<and> CHR ''='' \<notin> set (encode_byte c)"
proof -
  have lt: "(of_char c :: nat) div 16 < 16" "(of_char c :: nat) mod 16 < 16"
    by (simp_all add: less_mult_imp_div_less)
  show ?thesis
    using unreserved_not_special [of c] hex_digit_not_sep [OF lt(1)] hex_digit_not_sep [OF lt(2)]
    by (auto simp: encode_byte_def)
qed

lemma form_encode_no_sep: "CHR ''&'' \<notin> set (form_encode s)" "CHR ''='' \<notin> set (form_encode s)"
  using encode_byte_no_sep by (auto simp: form_encode_def)

lemma split_on_nonempty: "split_on sep s \<noteq> []"
  by (induction s) (auto split: list.splits)

lemma split_on_no_sep: "sep \<notin> set x \<Longrightarrow> split_on sep (x @ sep # rest) = x # split_on sep rest"
  by (induction x) (auto split: list.splits)

lemma split_on_single: "sep \<notin> set x \<Longrightarrow> split_on sep x = [x]"
  by (induction x) (auto split: list.splits)

lemma split_on_intercalate:
  assumes "xs \<noteq> []" and "\<forall>x \<in> set xs. sep \<notin> set x"
  shows "split_on sep (intercalate [sep] xs) = xs"
  using assms
proof (induction "[sep]" xs rule: intercalate.induct)
  case 1
  then show ?case by simp
next
  case (2 x)
  then show ?case by (simp add: split_on_single)
next
  case (3 x y ys)
  then show ?case by (simp add: split_on_no_sep)
qed

lemma parse_pair_encoded: "parse_pair (form_encode k @ CHR ''='' # form_encode v) = (k, v)"
proof -
  have t: "takeWhile (\<lambda>c. c \<noteq> CHR ''='') (form_encode k @ CHR ''='' # form_encode v) = form_encode k"
    using form_encode_no_sep(2) [of k] by (simp add: takeWhile_append)
  have d: "dropWhile (\<lambda>c. c \<noteq> CHR ''='') (form_encode k @ CHR ''='' # form_encode v)
             = CHR ''='' # form_encode v"
    using form_encode_no_sep(2) [of k] by (simp add: dropWhile_append)
  show ?thesis
    unfolding parse_pair_def t d by (simp add: decode_form_encode)
qed

lemma params_parse_toString: "params_parse (''?'' @ params_toString ps) = ps"
proof (cases ps)
  case Nil
  then show ?thesis by (simp add: params_parse_def params_toString_def)
next
  case (Cons p ps')
  let ?pieces = "map (\<lambda>(k, v). form_encode k @ CHR ''='' # form_encode v) ps"
  have ne: "?pieces \<noteq> []" using Cons by simp
  have nosep: "\<forall>x \<in> set ?pieces. CHR ''&'' \<notin> set x"
    using form_encode_no_sep(1) by auto
  have ts: "params_toString ps = intercalate [CHR ''&''] ?pieces"
    by (simp add: params_toString_def)
  have sp: "split_on CHR ''&'' (params_toString ps) = ?pieces"
    unfolding ts using ne nosep by (rule split_on_intercalate)
  have f: "filter (\<lambda>piece. piece \<noteq> []) ?pieces = ?pieces"
    by (rule filter_True) auto
  have m: "map parse_pair ?pieces = ps"
    by (induction ps) (auto simp: parse_pair_encoded)
  have "params_parse (''?'' @ params_toString ps)
          = map parse_pair (filter (\<lambda>piece. piece \<noteq> []) (split_on CHR ''&'' (params_toString ps)))"
    by (simp add: params_parse_def)
  then show ?thesis
    unfolding sp f m .
qed


lemma of_char_digit_char: "d < 10 \<Longrightarrow> (of_char (digit_char d) :: nat) = 48 + d"
  by (simp add: digit_char_def)

lemma digit_value_digit_char: "d < 10 \<Longrightarrow> digit_value 10 (digit_char d) = Some d"
  by (simp add: digit_value_def of_char_digit_char Let_def)


lemma decimal_string_of_nat: "decimal (string_of_nat n)"
proof (induction n rule: string_of_nat.induct)
  case (1 n)
  show ?case
  proof (cases "n < 10")
    case True
    then show ?thesis
      by (subst string_of_nat.simps) (auto simp: decimal_def)
  next
    case False
    have "\<exists>d < 10. digit_char (n mod 10) = digit_char d"
      by (rule exI [of _ "n mod 10"]) simp
    with False 1 show ?thesis
      by (subst string_of_nat.simps) (auto simp: decimal_def)
  qed
qed

lemma digits_value_snoc:
  "digits_value r (z @ [c]) = digits_value r z * r + the (digit_value r c)"
  by (simp add: digits_value_def)

lemma digits_value_string_of_nat: "digits_value 10 (string_of_nat n) = n"
proof (induction n rule: string_of_nat.induct)
  case (1 n)
  show ?case
  proof (cases "n < 10")
    case True
    then show ?thesis
      by (subst string_of_nat.simps) (simp add: digits_value_def digit_value_digit_char)
  next
    case False
    have "n mod 10 < 10" by simp
    with False 1 show ?thesis
      by (subst string_of_nat.simps) (simp add: digits_value_snoc digit_value_digit_char)
  qed
qed

lemma ws_prefix_None:
  assumes "(of_char c :: nat) \<notin> {9, 10, 11, 12, 13, 32, 194, 225, 226, 227, 239}"
  shows "ws_prefix (c # cs) = None"
proof -
  have "c \<noteq> CHR 0x09" "c \<noteq> CHR 0x0A" "c \<noteq> CHR 0x0B" "c \<noteq> CHR 0x0C" "c \<noteq> CHR 0x0D"
    "c \<noteq> CHR 0x20" "c \<noteq> CHR 0xC2" "c \<noteq> CHR 0xE1" "c \<noteq> CHR 0xE2" "c \<noteq> CHR 0xE3" "c \<noteq> CHR 0xEF"
    using assms by auto
  then show ?thesis
    by (simp add: ws_prefix_def white_space_def)
qed

lemma trimStart_id: "ws_prefix s = None \<Longrightarrow> trimStart s = s"
  by (subst trimStart.simps) simp

lemma decimal_hd: "decimal s \<Longrightarrow> \<exists>d < 10. hd s = digit_char d"
  by (cases s) (auto simp: decimal_def)

lemma decimal_no_ws: "decimal s \<Longrightarrow> ws_prefix s = None"
  by (cases s) (auto simp: decimal_def of_char_digit_char intro!: ws_prefix_None)

lemma decimal_not_sign:
  assumes "decimal s"
  shows "hd s \<noteq> CHR ''-''" "hd s \<noteq> CHR ''+''" "\<not> prefix ''0x'' s" "\<not> prefix ''0X'' s"
proof -
  from decimal_hd [OF assms] obtain d where d: "d < 10" "hd s = digit_char d" by blast
  then have "(of_char (hd s) :: nat) = 48 + d" by (simp add: of_char_digit_char)
  then show "hd s \<noteq> CHR ''-''" "hd s \<noteq> CHR ''+''" by auto
  have x: "c \<noteq> CHR ''x'' \<and> c \<noteq> CHR ''X''" if "c \<in> set s" for c
  proof -
    from that assms obtain e where "e < 10" "c = digit_char e" by (auto simp: decimal_def)
    then have "(of_char c :: nat) = 48 + e" by (simp add: of_char_digit_char)
    with \<open>e < 10\<close> show ?thesis by auto
  qed
  show "\<not> prefix ''0x'' s"
  proof
    assume "prefix ''0x'' s"
    then have "CHR ''x'' \<in> set s" by (auto simp: prefix_def)
    with x show False by blast
  qed
  show "\<not> prefix ''0X'' s"
  proof
    assume "prefix ''0X'' s"
    then have "CHR ''X'' \<in> set s" by (auto simp: prefix_def)
    with x show False by blast
  qed
qed

lemma decimal_takeWhile: "decimal s \<Longrightarrow> takeWhile (\<lambda>c. digit_value 10 c \<noteq> None) s = s"
  by (rule takeWhile_eq_all_conv [THEN iffD2]) (auto simp: decimal_def digit_value_digit_char)

lemma parseInt_decimal:
  assumes "decimal s"
  shows "parseInt_with b s = Some (int (digits_value 10 s))"
  using assms decimal_not_sign [OF assms]
  by (simp add: parseInt_with_def trimStart_id decimal_no_ws Let_def decimal_def
      decimal_takeWhile [OF assms] del: not_None_eq)

lemma parseInt_minus_decimal:
  assumes "decimal s"
  shows "parseInt_with b (CHR ''-'' # s) = Some (- int (digits_value 10 s))"
proof -
  have "ws_prefix (CHR ''-'' # s) = None"
    by (rule ws_prefix_None) simp
  then have "trimStart (CHR ''-'' # s) = CHR ''-'' # s"
    by (rule trimStart_id)
  then show ?thesis
    using assms decimal_not_sign [OF assms]
    by (simp add: parseInt_with_def Let_def decimal_def decimal_takeWhile [OF assms]
        del: not_None_eq)
qed

lemma parseInt_number_toString: "parseInt (number_toString n) = Some n"
proof (cases "n < 0")
  case True
  then show ?thesis
    by (simp add: parseInt_def number_toString_def parseInt_minus_decimal
        decimal_string_of_nat digits_value_string_of_nat)
next
  case False
  then show ?thesis
    by (simp add: parseInt_def number_toString_def parseInt_decimal
        decimal_string_of_nat digits_value_string_of_nat)
qed


lemma updateURL_pairs: "updateURL po = ''?'' @ params_toString (url_pairs po)"
  by (simp add: updateURL_def url_pairs_def Let_def)

lemma updateURL_species_pairs:
  "updateURL_species po = ''?'' @ params_toString
     ((if truthy_string (po_name po) then [(''name'', the (po_name po))] else []) @
      (if truthy_string (po_filter po) then [(''filter'', the (po_filter po))] else []) @
      [(''page'', number_toString (po_page po)), (''pageSize'', number_toString (po_pageSize po))])"
  by (simp add: updateURL_species_def Let_def)

lemma decode_pairs:
  "decode (''?'' @ params_toString ps) =
     \<lparr> st_page = or_default (parseInt (null_string (map_of ps ''page''))) 1,
       st_pageSize = or_default (parseInt (null_string (map_of ps ''pageSize''))) 5,
       st_searchName = string_or_empty (map_of ps ''name''),
       st_filter = string_or_empty (map_of ps ''filter'') \<rparr>"
  unfolding decode_def params_parse_toString by (simp add: params_get_def)

lemma decode_updateURL:
  assumes "po_page po \<noteq> 0" and "po_pageSize po \<noteq> 0"
  shows "decode (updateURL po) =
           \<lparr> st_page = po_page po, st_pageSize = po_pageSize po,
             st_searchName = string_or_empty (po_name po),
             st_filter = string_or_empty (po_filter po) \<rparr>"
  using assms unfolding updateURL_pairs decode_pairs
  by (cases "po_name po"; cases "po_filter po")
     (auto simp: url_pairs_def truthy_string_def string_or_empty_def null_string_def
        parseInt_number_toString or_default_def)

lemma decode_updateURL_species:
  assumes "po_page po \<noteq> 0" and "po_pageSize po \<noteq> 0"
  shows "decode (updateURL_species po) =
           \<lparr> st_page = po_page po, st_pageSize = po_pageSize po,
             st_searchName = string_or_empty (po_name po),
             st_filter = string_or_empty (po_filter po) \<rparr>"
  using assms unfolding updateURL_species_pairs decode_pairs
  by (cases "po_name po"; cases "po_filter po")
     (auto simp: truthy_string_def string_or_empty_def null_string_def
        parseInt_number_toString or_default_def)













section \<open>Properties of the search validation gate\<close>


lemma white_space_prefix_free:
  "list_all (\<lambda>a. list_all (\<lambda>b. prefix a b \<longrightarrow> a = b) white_space) white_space"
  by code_simp

lemma white_space_no_overlap:
  "list_all (\<lambda>a. list_all (\<lambda>b. hd b \<notin> set (tl a)) white_space) white_space"
  by code_simp

lemma white_space_nonempty: "w \<in> set white_space \<Longrightarrow> w \<noteq> []"
  by (auto simp: white_space_def)

lemma ws_prefix_SomeD:
  assumes "ws_prefix s = Some w"
  shows "w \<in> set white_space" "prefix w s" "w \<noteq> []" "s \<noteq> []"
proof -
  from assms show w: "w \<in> set white_space" and p: "prefix w s"
    by (auto simp: ws_prefix_def find_Some_iff)
  from w show "w \<noteq> []" by (rule white_space_nonempty)
  with p show "s \<noteq> []" by auto
qed

lemma ws_prefix_unique:
  assumes "w \<in> set white_space" and "prefix w s"
  shows "ws_prefix s = Some w"
proof (cases "ws_prefix s")
  case None
  with assms show ?thesis
    by (auto simp: ws_prefix_def find_None_iff)
next
  case (Some w')
  note w' = ws_prefix_SomeD [OF Some]
  from w'(2) assms(2) have "prefix w w' \<or> prefix w' w"
    by (rule prefix_same_cases [THEN disjE]) auto
  with white_space_prefix_free assms(1) w'(1) have "w' = w"
    by (auto simp: list_all_iff)
  with Some show ?thesis by simp
qed

lemma allowed_run_trimStart: "allowed_run (trimStart s) = allowed_run s"
proof (induction s rule: trimStart.induct)
  case (1 s)
  show ?case
  proof (cases "ws_prefix s")
    case None
    then show ?thesis by (simp add: trimStart_id)
  next
    case (Some w)
    note w = ws_prefix_SomeD [OF Some]
    have "trimStart s = trimStart (drop (length w) s)"
      by (subst trimStart.simps) (simp add: Some)
    moreover have "allowed_run s = allowed_run (drop (length w) s)"
      using w(4) by (subst allowed_run.simps) (simp add: Some)
    ultimately show ?thesis
      using 1 [OF Some] by simp
  qed
qed

lemma allowed_run_white_space:
  assumes "w \<in> set white_space"
  shows "allowed_run (s @ w) = allowed_run s"
proof (induction s rule: allowed_run.induct)
  case (1 s)
  show ?case
  proof (cases "s = []")
    case True
    have "ws_prefix w = Some w"
      using assms by (intro ws_prefix_unique) simp_all
    moreover have "w \<noteq> []"
      using assms by (rule white_space_nonempty)
    ultimately have "allowed_run w"
      by (subst allowed_run.simps) (simp add: allowed_run.simps [of "[]"])
    with True show ?thesis
      by (simp add: allowed_run.simps [of "[]"])
  next
    case False
    show ?thesis
    proof (cases "ws_prefix s")
      case (Some w1)
      note w1 = ws_prefix_SomeD [OF Some]
      from w1(2) have len: "length w1 \<le> length s"
        by (rule prefix_length_le)
      from w1 have "ws_prefix (s @ w) = Some w1"
        by (intro ws_prefix_unique) (auto intro: prefix_prefix)
      then have "allowed_run (s @ w) = allowed_run (drop (length w1) s @ w)"
        using len False by (subst allowed_run.simps) simp
      also have "\<dots> = allowed_run (drop (length w1) s)"
        using "1.IH" False Some by simp
      also have "\<dots> = allowed_run s"
        using False by (subst (2) allowed_run.simps) (simp add: Some)
      finally show ?thesis .
    next
      case None
      have "ws_prefix (s @ w) = None"
      proof (cases "ws_prefix (s @ w)")
        case (Some w1)
        note w1 = ws_prefix_SomeD [OF Some]
        have "\<not> prefix w1 s"
          using None w1(1) ws_prefix_unique by fastforce
        with w1(2) obtain x where x: "w1 = s @ x" "prefix x w" "x \<noteq> []"
          by (auto simp: prefix_append)
        then have "hd x = hd w"
          by (cases x; cases w) auto
        with x False have "hd w \<in> set (tl w1)"
          by (cases s; cases x) auto
        with white_space_no_overlap assms w1(1) show ?thesis
          by (auto simp: list_all_iff)
      qed
      then have "allowed_run (s @ w) = (allowed_char (hd s) \<and> allowed_run (tl s @ w))"
        using False by (subst allowed_run.simps) simp
      also have "allowed_run (tl s @ w) = allowed_run (tl s)"
        using "1.IH" False None by simp
      also have "(allowed_char (hd s) \<and> allowed_run (tl s)) = allowed_run s"
        using False by (subst (2) allowed_run.simps) (simp add: None)
      finally show ?thesis .
    qed
  qed
qed

lemma ws_suffix_SomeD:
  assumes "ws_suffix s = Some w"
  shows "w \<in> set white_space" "suffix w s"
  using assms by (auto simp: ws_suffix_def find_Some_iff)

lemma allowed_run_trimEnd: "allowed_run (trimEnd s) = allowed_run s"
proof (induction s rule: trimEnd.induct)
  case (1 s)
  show ?case
  proof (cases "ws_suffix s")
    case None
    then show ?thesis by (subst trimEnd.simps) simp
  next
    case (Some w)
    note w = ws_suffix_SomeD [OF Some]
    from w(2) obtain s' where s: "s = s' @ w"
      by (auto simp: suffix_def)
    then have t: "take (length s - length w) s = s'"
      by simp
    have "trimEnd s = trimEnd s'"
      by (subst trimEnd.simps) (simp add: Some t)
    moreover have "allowed_run s = allowed_run s'"
      unfolding s using w(1) by (rule allowed_run_white_space)
    ultimately show ?thesis
      using 1 [OF Some] t by simp
  qed
qed

lemma trim_Nil: "trim [] = []"
proof -
  have "ws_prefix [] = None"
    using ws_prefix_SomeD(4) [of "[]"] by (cases "ws_prefix []") auto
  moreover have "ws_suffix [] = None"
    using ws_suffix_SomeD [of "[]"] white_space_nonempty by (cases "ws_suffix []") auto
  ultimately show ?thesis
    by (simp add: trim_def trimStart_id) (subst trimEnd.simps, simp)
qed

lemma validPattern_test_trim:
  assumes "trim s \<noteq> []"
  shows "validPattern_test (trim s) = validPattern_test s"
proof -
  from assms have "s \<noteq> []"
    using trim_Nil by auto
  with assms show ?thesis
    by (simp add: validPattern_test_def trim_def allowed_run_trimEnd allowed_run_trimStart)
qed

lemma handleSearchSubmit_accepted:
  assumes "search_term_accepted (st_searchName s)"
  shows "handleSearchSubmit s =
           (Some (updateURL \<lparr> po_name = Some (st_searchName s), po_filter = Some (st_filter s),
                               po_page = 1, po_pageSize = st_pageSize s \<rparr>), None)"
    and "handleSearchSubmit_species s =
           (Some (updateURL_species \<lparr> po_name = Some (st_searchName s), po_filter = Some (st_filter s),
                               po_page = 1, po_pageSize = st_pageSize s \<rparr>), None)"
  using assms validPattern_test_trim [of "st_searchName s"]
  by (simp_all add: search_term_accepted_def handleSearchSubmit_def handleSearchSubmit_species_def)

lemma handleSearchSubmit_rejected:
  assumes "\<not> search_term_accepted (st_searchName s)"
  shows "fst (handleSearchSubmit s) = None \<and> snd (handleSearchSubmit s) \<noteq> None"
    and "fst (handleSearchSubmit_species s) = None \<and> snd (handleSearchSubmit_species s) \<noteq> None"
  using assms validPattern_test_trim [of "st_searchName s"]
  by (auto simp: search_term_accepted_def handleSearchSubmit_def handleSearchSubmit_species_def)

lemma decode_search_url:
  assumes "st_pageSize s \<noteq> 0"
  shows "decode (updateURL \<lparr> po_name = Some (st_searchName s), po_filter = Some (st_filter s),
                             po_page = 1, po_pageSize = st_pageSize s \<rparr>) = s \<lparr> st_page := 1 \<rparr>"
    and "decode (updateURL_species \<lparr> po_name = Some (st_searchName s), po_filter = Some (st_filter s),
                             po_page = 1, po_pageSize = st_pageSize s \<rparr>) = s \<lparr> st_page := 1 \<rparr>"
  using assms by (simp_all add: decode_updateURL decode_updateURL_species string_or_empty_def)

text \<open>
  Claim C5.  On search submit the view navigates iff the trimmed search term is not empty
  and matches the allow-list pattern.  It then navigates to the query string of the
  current search term, filter and page size with page 1, which decodes to the current
  state with the page reset to 1.  Otherwise nothing is navigated to and a dialog is shown;
  for a term that is not blank and violates the allow-list it is the dialog
  \<open>Invalid input\<close>.  The same holds for the handler of the Species view.
\<close>

theorem search_validation_gate:
  "(fst (handleSearchSubmit s) \<noteq> None \<longleftrightarrow> search_term_accepted (st_searchName s))
   \<and> (search_term_accepted (st_searchName s) \<longrightarrow>
        handleSearchSubmit s =
          (Some (updateURL \<lparr> po_name = Some (st_searchName s), po_filter = Some (st_filter s),
                              po_page = 1, po_pageSize = st_pageSize s \<rparr>), None))
   \<and> (search_term_accepted (st_searchName s) \<and> st_pageSize s \<noteq> 0 \<longrightarrow>
        map_option decode (fst (handleSearchSubmit s)) = Some (s \<lparr> st_page := 1 \<rparr>))
   \<and> (\<not> search_term_accepted (st_searchName s) \<longrightarrow>
        fst (handleSearchSubmit s) = None \<and> snd (handleSearchSubmit s) \<noteq> None)
   \<and> (trim (st_searchName s) \<noteq> [] \<and> \<not> validPattern_test (st_searchName s) \<longrightarrow>
        handleSearchSubmit s =
          (None, Some (Swal ''Invalid input''
             ''Allowed characters: letters, numbers, spaces, hyphens, apostrophes.'' ''info'')))
   \<and> (fst (handleSearchSubmit_species s) \<noteq> None \<longleftrightarrow> search_term_accepted (st_searchName s))
   \<and> (search_term_accepted (st_searchName s) \<and> st_pageSize s \<noteq> 0 \<longrightarrow>
        map_option decode (fst (handleSearchSubmit_species s)) = Some (s \<lparr> st_page := 1 \<rparr>))
   \<and> (\<not> search_term_accepted (st_searchName s) \<longrightarrow>
        fst (handleSearchSubmit_species s) = None \<and> snd (handleSearchSubmit_species s) \<noteq> None)"
proof (cases "search_term_accepted (st_searchName s)")
  case True
  note acc = handleSearchSubmit_accepted [OF True]
  from True have "validPattern_test (st_searchName s)" and "trim (st_searchName s) \<noteq> []"
    using validPattern_test_trim [of "st_searchName s"]
    by (simp_all add: search_term_accepted_def)
  with True show ?thesis
    by (simp add: acc decode_search_url)
next
  case False
  note rej = handleSearchSubmit_rejected [OF False]
  have inv: "handleSearchSubmit s =
          (None, Some (Swal ''Invalid input''
             ''Allowed characters: letters, numbers, spaces, hyphens, apostrophes.'' ''info''))"
    if "trim (st_searchName s) \<noteq> []" and "\<not> validPattern_test (st_searchName s)"
    using that by (simp add: handleSearchSubmit_def)
  from False rej inv show ?thesis
    by simp
qed

theorem search_validation_gate_witness:
  "handleSearchSubmit
      \<lparr> st_page = 4, st_pageSize = 10, st_searchName = ''Savannah-2'', st_filter = ''name'' \<rparr>
     = (Some ''?filter=name&name=Savannah-2&page=1&pageSize=10'', None)
   \<and> handleSearchSubmit
      \<lparr> st_page = 4, st_pageSize = 10, st_searchName = ''Savannah!'', st_filter = ''name'' \<rparr>
     = (None, Some (Swal ''Invalid input''
             ''Allowed characters: letters, numbers, spaces, hyphens, apostrophes.'' ''info''))"
proof -
  have a: "search_term_accepted ''Savannah-2''"
    and u: "updateURL \<lparr> po_name = Some ''Savannah-2'', po_filter = Some ''name'',
                        po_page = 1, po_pageSize = 10 \<rparr>
              = ''?filter=name&name=Savannah-2&page=1&pageSize=10''"
    and t: "trim ''Savannah!'' \<noteq> []"
    and v: "\<not> validPattern_test ''Savannah!''"
    by code_simp+
  from search_validation_gate
    [of "\<lparr> st_page = 4, st_pageSize = 10, st_searchName = ''Savannah-2'', st_filter = ''name'' \<rparr>"]
    a u
  have 1: "handleSearchSubmit
      \<lparr> st_page = 4, st_pageSize = 10, st_searchName = ''Savannah-2'', st_filter = ''name'' \<rparr>
     = (Some ''?filter=name&name=Savannah-2&page=1&pageSize=10'', None)"
    by simp
  from search_validation_gate
    [of "\<lparr> st_page = 4, st_pageSize = 10, st_searchName = ''Savannah!'', st_filter = ''name'' \<rparr>"]
    t v
  have 2: "handleSearchSubmit
      \<lparr> st_page = 4, st_pageSize = 10, st_searchName = ''Savannah!'', st_filter = ''name'' \<rparr>
     = (None, Some (Swal ''Invalid input''
             ''Allowed characters: letters, numbers, spaces, hyphens, apostrophes.'' ''info''))"
    by simp
  from 1 2 show ?thesis by blast
qed

end
